theory Spec2Isabelle
  imports Complex_Main "HOL-Library.AList"
begin

section \<open>Values read from the item files\<close>

text \<open>
  \<^verbatim>\<open>json.load\<close> returns a Python value: \<^verbatim>\<open>None\<close>, a bool, an int, a float, a
  string, a list or a dict whose keys are strings. A dict keeps its insertion order, so
  it is an association list; assigning to a key is \<open>AList.update\<close> (an existing key keeps
  its place, a new key goes to the end). Numbers are exact rationals: the rounding,
  overflow, infinities and NaN of IEEE doubles are outside this model.
\<close>

datatype json =
    JNull
  | JBool bool
  | JInt int
  | JFloat rat
  | JStr string
  | JList "json list"
  | JDict "(string \<times> json) list"

datatype py_error = TypeError | AttributeError | ZeroDivisionError | OSError

text \<open>The numeric value of a Python object in arithmetic and comparisons; a bool is 0 or 1.\<close>

fun num_of :: "json \<Rightarrow> rat option" where
  "num_of (JBool b) = Some (if b then 1 else 0)"
| "num_of (JInt i) = Some (of_int i)"
| "num_of (JFloat r) = Some r"
| "num_of JNull = None"
| "num_of (JStr s) = None"
| "num_of (JList xs) = None"
| "num_of (JDict kvs) = None"

text \<open>Truth value of an object, as \<^verbatim>\<open>not recipe\<close> tests it.\<close>

fun truthy :: "json \<Rightarrow> bool" where
  "truthy JNull = False"
| "truthy (JBool b) = b"
| "truthy (JInt i) = (i \<noteq> 0)"
| "truthy (JFloat r) = (r \<noteq> 0)"
| "truthy (JStr s) = (s \<noteq> [])"
| "truthy (JList xs) = (xs \<noteq> [])"
| "truthy (JDict kvs) = (kvs \<noteq> [])"

text \<open>\<^verbatim>\<open>s in t\<close> on two strings: \<open>s\<close> occurs in \<open>t\<close> as a contiguous piece.\<close>

fun substring :: "string \<Rightarrow> string \<Rightarrow> bool" where
  "substring s [] = (s = [])"
| "substring s (c # t) = (take (length s) (c # t) = s \<or> substring s t)"

text \<open>
  \<^verbatim>\<open>key in data\<close> for a string key: key membership on a dict, element membership on a
  list, substring on a string, TypeError on anything else.
\<close>

fun py_contains :: "string \<Rightarrow> json \<Rightarrow> py_error + bool" where
  "py_contains k (JDict kvs) = Inr (map_of kvs k \<noteq> None)"
| "py_contains k (JList xs) = Inr (List.member xs (JStr k))"
| "py_contains k (JStr s) = Inr (substring k s)"
| "py_contains k JNull = Inl TypeError"
| "py_contains k (JBool b) = Inl TypeError"
| "py_contains k (JInt i) = Inl TypeError"
| "py_contains k (JFloat r) = Inl TypeError"

text \<open>
  \<^verbatim>\<open>data[key]\<close> for a string key, used only after \<^verbatim>\<open>key in data\<close> held: the value on a
  dict, TypeError on a list or a string (their indices must be integers) and on the rest.
\<close>

fun py_getitem :: "json \<Rightarrow> string \<Rightarrow> py_error + json" where
  "py_getitem (JDict kvs) k = (case map_of kvs k of Some v \<Rightarrow> Inr v | None \<Rightarrow> Inl TypeError)"
| "py_getitem (JList xs) k = Inl TypeError"
| "py_getitem (JStr s) k = Inl TypeError"
| "py_getitem JNull k = Inl TypeError"
| "py_getitem (JBool b) k = Inl TypeError"
| "py_getitem (JInt i) k = Inl TypeError"
| "py_getitem (JFloat r) k = Inl TypeError"

text \<open>\<^verbatim>\<open>data.get(key, default)\<close>: only a dict has the method.\<close>

fun py_get :: "json \<Rightarrow> string \<Rightarrow> json \<Rightarrow> py_error + json" where
  "py_get (JDict kvs) k dflt = Inr (case map_of kvs k of Some v \<Rightarrow> v | None \<Rightarrow> dflt)"
| "py_get (JList xs) k dflt = Inl AttributeError"
| "py_get (JStr s) k dflt = Inl AttributeError"
| "py_get JNull k dflt = Inl AttributeError"
| "py_get (JBool b) k dflt = Inl AttributeError"
| "py_get (JInt i) k dflt = Inl AttributeError"
| "py_get (JFloat r) k dflt = Inl AttributeError"

text \<open>\<^verbatim>\<open>recipe.items()\<close>: only a dict has the method.\<close>

fun py_items :: "json \<Rightarrow> py_error + (string \<times> json) list" where
  "py_items (JDict kvs) = Inr kvs"
| "py_items (JList xs) = Inl AttributeError"
| "py_items (JStr s) = Inl AttributeError"
| "py_items JNull = Inl AttributeError"
| "py_items (JBool b) = Inl AttributeError"
| "py_items (JInt i) = Inl AttributeError"
| "py_items (JFloat r) = Inl AttributeError"

text \<open>\<^verbatim>\<open>data[key] = value\<close> for a string key.\<close>

fun py_setitem :: "json \<Rightarrow> string \<Rightarrow> json \<Rightarrow> py_error + json" where
  "py_setitem (JDict kvs) k v = Inr (JDict (AList.update k v kvs))"
| "py_setitem (JList xs) k v = Inl TypeError"
| "py_setitem (JStr s) k v = Inl TypeError"
| "py_setitem JNull k v = Inl TypeError"
| "py_setitem (JBool b) k v = Inl TypeError"
| "py_setitem (JInt i) k v = Inl TypeError"
| "py_setitem (JFloat r) k v = Inl TypeError"

text \<open>\<^verbatim>\<open>x <= 0\<close>: a comparison of numbers, TypeError on anything else.\<close>

definition py_le_zero :: "json \<Rightarrow> py_error + bool" where
  "py_le_zero x = (case num_of x of None \<Rightarrow> Inl TypeError | Some n \<Rightarrow> Inr (n \<le> 0))"

text \<open>
  \<^verbatim>\<open>a / b\<close>: true division of two numbers; TypeError when an operand is not a number,
  ZeroDivisionError when the divisor is zero.
\<close>

definition py_truediv :: "json \<Rightarrow> json \<Rightarrow> py_error + rat" where
  "py_truediv a b =
     (case num_of a of
        None \<Rightarrow> Inl TypeError
      | Some x \<Rightarrow>
          (case num_of b of
             None \<Rightarrow> Inl TypeError
           | Some y \<Rightarrow> if y = 0 then Inl ZeroDivisionError else Inr (x / y)))"

section \<open>The catalog\<close>

text \<open>
  The keys of \<^verbatim>\<open>items\<close> are the \<^verbatim>\<open>id\<close> values of the records. A dict key must be
  hashable (a list or a dict raises TypeError), and keys are compared with \<^verbatim>\<open>==\<close>:
  \<^verbatim>\<open>None\<close> equals only itself, a string equals only the same string, and bools, ints
  and floats are equal when their numeric values are.
\<close>

datatype key = KNone | KNum rat | KStr string

fun hash_key :: "json \<Rightarrow> py_error + key" where
  "hash_key JNull = Inr KNone"
| "hash_key (JBool b) = Inr (KNum (if b then 1 else 0))"
| "hash_key (JInt i) = Inr (KNum (of_int i))"
| "hash_key (JFloat r) = Inr (KNum r)"
| "hash_key (JStr s) = Inr (KStr s)"
| "hash_key (JList xs) = Inl TypeError"
| "hash_key (JDict kvs) = Inl TypeError"

type_synonym catalog = "(key \<times> json) list"

section \<open>The file system and what the run does to it\<close>

text \<open>
  What \<^verbatim>\<open>open\<close> and \<^verbatim>\<open>json.load\<close> give for a file: the parsed value, a
  \<^verbatim>\<open>json.JSONDecodeError\<close>, or another exception (the file cannot be opened or read).
\<close>

datatype file_content = Parsed json | JSONDecodeError | Unreadable

text \<open>
  The source directory is absent (\<open>None\<close>) or lists its entries by name, in the order
  the directory listing returns them. The destination directory is absent or maps the
  names of its files to the records they hold.
\<close>

record world =
  source :: "(string \<times> file_content) list option"
  dest :: "(string \<rightharpoonup> json) option"

datatype msg =
    Error_source_missing
  | Warning_no_id string
  | Error_decoding string
  | Clearing_destination
  | Loading_items
  | Loaded nat
  | No_items_found
  | Calculating
  | Skipping string
  | Processed nat nat
  | Output_saved

text \<open>The observable steps of a run, in order: printed lines and file system calls.\<close>

datatype event =
    Print msg
  | Exists_dest
  | Rmtree_dest
  | Makedirs_dest
  | Exists_source
  | Glob_source
  | Open_read string
  | Open_write string

text \<open>
  \<^verbatim>\<open>glob.glob(os.path.join(dir, '*.json'))\<close> on a POSIX system: the names that end in
  \<^verbatim>\<open>.json\<close> and do not start with a dot (a pattern that does not start with a dot
  never matches a hidden file). A directory that does not exist gives no names.
\<close>

definition glob_json :: "string \<Rightarrow> bool" where
  "glob_json name =
     ((case name of [] \<Rightarrow> True | c # cs \<Rightarrow> c \<noteq> CHR ''.'') \<and>
      5 \<le> length name \<and> drop (length name - 5) name = ''.json'')"

definition glob :: "(string \<times> file_content) list option \<Rightarrow> (string \<times> file_content) list" where
  "glob dir = (case dir of None \<Rightarrow> [] | Some listing \<Rightarrow> filter (\<lambda>(name, content). glob_json name) listing)"

fun emit :: "event list \<Rightarrow> 'a \<times> event list \<Rightarrow> 'a \<times> event list" where
  "emit es (r, evs) = (r, es @ evs)"

section \<open>load_items\<close>

text \<open>
  The loop of \<^verbatim>\<open>load_items\<close> over the globbed files. \<^verbatim>\<open>open\<close> is outside the
  \<^verbatim>\<open>try\<close> and only \<^verbatim>\<open>json.JSONDecodeError\<close> is caught, so every other exception
  leaves the function.
\<close>

fun load_loop :: "(string \<times> file_content) list \<Rightarrow> catalog \<Rightarrow> (py_error + catalog) \<times> event list" where
  "load_loop [] items = (Inr items, [])"
| "load_loop ((file_path, content) # files) items =
     emit [Open_read file_path]
       (case content of
          Unreadable \<Rightarrow> (Inl OSError, [])
        | JSONDecodeError \<Rightarrow> emit [Print (Error_decoding file_path)] (load_loop files items)
        | Parsed data \<Rightarrow>
            (case py_contains ''id'' data of
               Inl e \<Rightarrow> (Inl e, [])
             | Inr False \<Rightarrow> emit [Print (Warning_no_id file_path)] (load_loop files items)
             | Inr True \<Rightarrow>
                 (case py_getitem data ''id'' of
                    Inl e \<Rightarrow> (Inl e, [])
                  | Inr v \<Rightarrow>
                      (case hash_key v of
                         Inl e \<Rightarrow> (Inl e, [])
                       | Inr k \<Rightarrow> load_loop files (AList.update k data items)))))"

definition load_items :: "(string \<times> file_content) list option \<Rightarrow> (py_error + catalog) \<times> event list" where
  "load_items source_dir =
     (case source_dir of
        None \<Rightarrow> (Inr [], [Exists_source, Print Error_source_missing])
      | Some listing \<Rightarrow> emit [Exists_source, Glob_source] (load_loop (glob source_dir) []))"

section \<open>calculate_savings\<close>

text \<open>
  The loop over \<^verbatim>\<open>recipe.items()\<close>, with \<^verbatim>\<open>ingredient_space\<close> as accumulator.
  \<open>Inr None\<close> is the early \<^verbatim>\<open>return None\<close>.
\<close>

fun ingredient_loop :: "catalog \<Rightarrow> (string \<times> json) list \<Rightarrow> rat \<Rightarrow> py_error + rat option" where
  "ingredient_loop items_map [] ingredient_space = Inr (Some ingredient_space)"
| "ingredient_loop items_map ((ingredient_id, quantity) # rest) ingredient_space =
     (case map_of items_map (KStr ingredient_id) of
        None \<Rightarrow> Inr None
      | Some ingredient \<Rightarrow>
          (case py_get ingredient ''stackSize'' (JInt 1) of
             Inl e \<Rightarrow> Inl e
           | Inr stack_size \<Rightarrow>
               (case py_le_zero stack_size of
                  Inl e \<Rightarrow> Inl e
                | Inr le \<Rightarrow>
                    (case py_truediv quantity (if le then JInt 1 else stack_size) of
                       Inl e \<Rightarrow> Inl e
                     | Inr q \<Rightarrow> ingredient_loop items_map rest (ingredient_space + q)))))"

text \<open>The target space: the statements after the loop, up to the division.\<close>

definition target_space :: "json \<Rightarrow> py_error + rat" where
  "target_space item =
     (case py_get item ''craftQuantity'' (JInt 1) of
        Inl e \<Rightarrow> Inl e
      | Inr craft_quantity \<Rightarrow>
          (case py_get item ''stackSize'' (JInt 1) of
             Inl e \<Rightarrow> Inl e
           | Inr target_stack_size \<Rightarrow>
               (case py_le_zero target_stack_size of
                  Inl e \<Rightarrow> Inl e
                | Inr le \<Rightarrow> py_truediv craft_quantity (if le then JInt 1 else target_stack_size))))"

definition calculate_savings :: "json \<Rightarrow> catalog \<Rightarrow> py_error + rat option" where
  "calculate_savings item items_map =
     (case py_contains ''recipe'' item of
        Inl e \<Rightarrow> Inl e
      | Inr False \<Rightarrow> Inr None
      | Inr True \<Rightarrow>
          (case py_getitem item ''recipe'' of
             Inl e \<Rightarrow> Inl e
           | Inr recipe \<Rightarrow>
               if \<not> truthy recipe then Inr None
               else
                 (case py_items recipe of
                    Inl e \<Rightarrow> Inl e
                  | Inr pairs \<Rightarrow>
                      (case ingredient_loop items_map pairs 0 of
                         Inl e \<Rightarrow> Inl e
                       | Inr None \<Rightarrow> Inr None
                       | Inr (Some ingredient_space) \<Rightarrow>
                           (case target_space item of
                              Inl e \<Rightarrow> Inl e
                            | Inr target \<Rightarrow> Inr (Some (ingredient_space - target)))))))"

section \<open>main\<close>

text \<open>
  What \<^verbatim>\<open>main\<close> does to one parsed record between reading and writing it: the
  record to write, and whether \<^verbatim>\<open>calculated_count\<close> goes up.
\<close>

definition process_record :: "catalog \<Rightarrow> json \<Rightarrow> py_error + json \<times> bool" where
  "process_record items_map data =
     (case py_contains ''id'' data of
        Inl e \<Rightarrow> Inl e
      | Inr False \<Rightarrow> Inr (data, False)
      | Inr True \<Rightarrow>
          (case calculate_savings data items_map of
             Inl e \<Rightarrow> Inl e
           | Inr None \<Rightarrow> Inr (data, False)
           | Inr (Some savings) \<Rightarrow>
               (case py_setitem data ''stashSavings'' (JFloat savings) of
                  Inl e \<Rightarrow> Inl e
                | Inr data' \<Rightarrow> Inr (data', True))))"

text \<open>
  The loop of \<^verbatim>\<open>main\<close> over the globbed files: the files of the destination so far
  and the two counters are threaded through. Reading is inside \<^verbatim>\<open>try\<close> with
  \<^verbatim>\<open>except Exception\<close>; the calculation and the write are outside it.
\<close>

fun publish_loop ::
  "catalog \<Rightarrow> (string \<times> file_content) list \<Rightarrow> (string \<rightharpoonup> json) \<Rightarrow> nat \<Rightarrow> nat \<Rightarrow>
     (py_error + nat \<times> nat) \<times> (string \<rightharpoonup> json) \<times> event list" where
  "publish_loop items_map [] d processed calculated = (Inr (processed, calculated), d, [])"
| "publish_loop items_map ((filename, content) # files) d processed calculated =
     (case content of
        Parsed data \<Rightarrow>
          (case process_record items_map data of
             Inl e \<Rightarrow> (Inl e, d, [Open_read filename])
           | Inr (data', counted) \<Rightarrow>
               (case publish_loop items_map files (d(filename \<mapsto> data')) (processed + 1)
                       (if counted then calculated + 1 else calculated) of
                  (r, d', evs) \<Rightarrow> (r, d', Open_read filename # Open_write filename # evs)))
      | JSONDecodeError \<Rightarrow>
          (case publish_loop items_map files d processed calculated of
             (r, d', evs) \<Rightarrow> (r, d', Open_read filename # Print (Skipping filename) # evs))
      | Unreadable \<Rightarrow>
          (case publish_loop items_map files d processed calculated of
             (r, d', evs) \<Rightarrow> (r, d', Open_read filename # Print (Skipping filename) # evs)))"

text \<open>
  The first statements of \<^verbatim>\<open>main\<close>: the destination is removed when it exists, then
  created.
\<close>

definition reset_events :: "(string \<rightharpoonup> json) option \<Rightarrow> event list" where
  "reset_events d =
     Exists_dest # (if d \<noteq> None then [Print Clearing_destination, Rmtree_dest] else []) @ [Makedirs_dest]"

text \<open>
  The result of a run: the exception that ended it if one did, the files of the
  destination directory afterwards, and the steps taken.
\<close>

record run =
  raised :: "py_error option"
  dest_after :: "string \<rightharpoonup> json"
  trace :: "event list"

definition main :: "world \<Rightarrow> run" where
  "main w =
     (case load_items (source w) of
        (Inl e, evs) \<Rightarrow>
          \<lparr>raised = Some e, dest_after = Map.empty,
           trace = reset_events (dest w) @ Print Loading_items # evs\<rparr>
      | (Inr items_map, evs) \<Rightarrow>
          if items_map = [] then
            \<lparr>raised = None, dest_after = Map.empty,
             trace = reset_events (dest w) @ Print Loading_items # evs @
               [Print (Loaded (length items_map)), Print No_items_found]\<rparr>
          else
            (case publish_loop items_map (glob (source w)) Map.empty 0 0 of
               (Inl e, d, pevs) \<Rightarrow>
                 \<lparr>raised = Some e, dest_after = d,
                  trace = reset_events (dest w) @ Print Loading_items # evs @
                    [Print (Loaded (length items_map)), Print Calculating, Glob_source] @ pevs\<rparr>
             | (Inr (processed, calculated), d, pevs) \<Rightarrow>
                 \<lparr>raised = None, dest_after = d,
                  trace = reset_events (dest w) @ Print Loading_items # evs @
                    [Print (Loaded (length items_map)), Print Calculating, Glob_source] @ pevs @
                    [Print (Processed processed calculated), Print Output_saved]\<rparr>))"

section \<open>The savings formula as the specification states it\<close>








section \<open>Notions used to state the properties of a run\<close>

text \<open>The fields of a record: those of a dict, none for any other value.\<close>

definition field_of :: "json \<Rightarrow> string \<rightharpoonup> json" where
  "field_of data = (case data of JDict kvs \<Rightarrow> map_of kvs | _ \<Rightarrow> Map.empty)"


text \<open>The steps that remove or create the destination directory.\<close>

fun resets_dest :: "event \<Rightarrow> bool" where
  "resets_dest Rmtree_dest = True"
| "resets_dest Makedirs_dest = True"
| "resets_dest e = False"

text \<open>The steps that look at the source directory or at a file in it.\<close>

fun touches_source :: "event \<Rightarrow> bool" where
  "touches_source Exists_source = True"
| "touches_source Glob_source = True"
| "touches_source (Open_read n) = True"
| "touches_source e = False"

text \<open>
  The key under which \<open>load_items\<close> files a parsed record: the hashed value of its
  \<open>id\<close>, when it has one.
\<close>

definition record_key :: "json \<Rightarrow> key option" where
  "record_key data =
     (case py_contains ''id'' data of
        Inr True \<Rightarrow>
          (case py_getitem data ''id'' of
             Inr v \<Rightarrow> (case hash_key v of Inr k \<Rightarrow> Some k | Inl e \<Rightarrow> None)
           | Inl e \<Rightarrow> None)
      | _ \<Rightarrow> None)"

text \<open>The ids seen in the files, each with its record, in the order of the files.\<close>

fun seen_ids :: "(string \<times> file_content) list \<Rightarrow> (key \<times> json) list" where
  "seen_ids [] = []"
| "seen_ids ((name, Parsed data) # files) =
     (case record_key data of Some k \<Rightarrow> (k, data) # seen_ids files | None \<Rightarrow> seen_ids files)"
| "seen_ids ((name, JSONDecodeError) # files) = seen_ids files"
| "seen_ids ((name, Unreadable) # files) = seen_ids files"

text \<open>The lines a list of steps prints.\<close>

fun printed :: "event list \<Rightarrow> msg list" where
  "printed [] = []"
| "printed (Print m # evs) = m # printed evs"
| "printed (e # evs) = printed evs"

text \<open>One line for each file that does not decode and each record without an id.\<close>

fun file_diagnostics :: "(string \<times> file_content) list \<Rightarrow> msg list" where
  "file_diagnostics [] = []"
| "file_diagnostics ((name, JSONDecodeError) # files) = Error_decoding name # file_diagnostics files"
| "file_diagnostics ((name, Parsed data) # files) =
     (if py_contains ''id'' data = Inr False then Warning_no_id name # file_diagnostics files
      else file_diagnostics files)"
| "file_diagnostics ((name, Unreadable) # files) = file_diagnostics files"


section \<open>Properties of calculate\_savings\<close>






lemma ingredient_loop_clamped:
  assumes "map_of cat k = Some (JDict flds)" "map_of flds ''stackSize'' = Some v"
    "num_of v = Some n" "n \<le> 0"
  shows "ingredient_loop (AList.update k (JDict (AList.update ''stackSize'' (JInt 1) flds)) cat) pairs acc =
         ingredient_loop cat pairs acc"
proof (induction pairs arbitrary: acc)
  case Nil
  show ?case by simp
next
  case (Cons p pairs)
  obtain i q where p: "p = (i, q)" by (cases p)
  show ?case
  proof (cases "KStr i = k")
    case True
    then show ?thesis
      using assms Cons.IH by (simp add: p update_conv' py_le_zero_def cong: sum.case_cong)
  next
    case False
    then show ?thesis
      using Cons.IH by (simp add: p update_conv' cong: sum.case_cong option.case_cong)
  qed
qed

lemma target_space_clamped:
  assumes "map_of flds ''stackSize'' = Some v" "num_of v = Some n" "n \<le> 0"
  shows "target_space (JDict (AList.update ''stackSize'' (JInt 1) flds)) = target_space (JDict flds)"
  using assms by (simp add: target_space_def update_conv' py_le_zero_def)

lemma py_truediv_one_no_zero: "py_truediv q (JInt 1) \<noteq> Inl ZeroDivisionError"
  by (simp add: py_truediv_def split: option.splits)

lemma py_truediv_positive_no_zero:
  "py_le_zero s = Inr False \<Longrightarrow> py_truediv q s \<noteq> Inl ZeroDivisionError"
  by (auto simp: py_le_zero_def py_truediv_def split: option.splits)

lemma py_get_no_zero_division: "py_get x k d \<noteq> Inl ZeroDivisionError"
  by (cases x) simp_all

lemma py_le_zero_no_zero_division: "py_le_zero x \<noteq> Inl ZeroDivisionError"
  by (simp add: py_le_zero_def split: option.splits)

lemmas no_zero_division =
  py_truediv_one_no_zero py_truediv_positive_no_zero py_get_no_zero_division
  py_le_zero_no_zero_division

lemma ingredient_loop_no_zero_division:
  "ingredient_loop cat pairs acc \<noteq> Inl ZeroDivisionError"
proof (induction pairs arbitrary: acc)
  case Nil
  show ?case by simp
next
  case (Cons p pairs)
  obtain i q where p: "p = (i, q)" by (cases p)
  show ?case
    using Cons.IH
    by (auto simp: p no_zero_division split: option.splits sum.splits)
qed

lemma target_space_no_zero_division: "target_space item \<noteq> Inl ZeroDivisionError"
  by (auto simp: target_space_def no_zero_division split: sum.splits)

lemma py_contains_no_zero_division: "py_contains k x \<noteq> Inl ZeroDivisionError"
  by (cases x) simp_all

lemma py_getitem_no_zero_division: "py_getitem x k \<noteq> Inl ZeroDivisionError"
  by (cases x) (simp_all split: option.splits)

lemma py_items_no_zero_division: "py_items x \<noteq> Inl ZeroDivisionError"
  by (cases x) simp_all

lemma calculate_savings_no_zero_division: "calculate_savings item cat \<noteq> Inl ZeroDivisionError"
  using ingredient_loop_no_zero_division target_space_no_zero_division
    py_contains_no_zero_division py_getitem_no_zero_division py_items_no_zero_division
  by (auto simp: calculate_savings_def split: sum.splits bool.splits option.splits)

text \<open>
  Claim C4. A record whose stack size is a number that is zero or negative is treated
  exactly as the same record with stack size 1, both as the item whose savings are
  computed and as an ingredient looked up in the catalog: the value is replaced by 1
  before the division. No call of \<open>calculate_savings\<close> ends in a division by zero. The
  function prints nothing: its result carries no events, as the source function has no
  \<^verbatim>\<open>print\<close>.
\<close>

theorem degenerate_stack_size_is_one:
  assumes "map_of flds ''stackSize'' = Some v" and "num_of v = Some n" and "n \<le> 0"
  shows "calculate_savings (JDict (AList.update ''stackSize'' (JInt 1) flds)) cat =
           calculate_savings (JDict flds) cat \<and>
         (map_of cat k = Some (JDict flds) \<longrightarrow>
            calculate_savings item (AList.update k (JDict (AList.update ''stackSize'' (JInt 1) flds)) cat) =
            calculate_savings item cat) \<and>
         calculate_savings item cat \<noteq> Inl ZeroDivisionError \<and>
         calculate_savings (JDict flds) cat \<noteq> Inl ZeroDivisionError"
proof -
  have a: "calculate_savings (JDict (AList.update ''stackSize'' (JInt 1) flds)) cat =
           calculate_savings (JDict flds) cat"
    using target_space_clamped [OF assms]
    by (simp add: calculate_savings_def update_conv'
        cong: sum.case_cong option.case_cong bool.case_cong if_cong)
  have b: "calculate_savings item (AList.update k (JDict (AList.update ''stackSize'' (JInt 1) flds)) cat) =
            calculate_savings item cat" if "map_of cat k = Some (JDict flds)"
    using ingredient_loop_clamped [OF that assms]
    by (simp add: calculate_savings_def cong: sum.case_cong option.case_cong bool.case_cong if_cong)
  show ?thesis
    using a b calculate_savings_no_zero_division by blast
qed

theorem degenerate_stack_size_is_one_witness:
  "calculate_savings
     (JDict [(''id'', JStr ''B''), (''recipe'', JDict [(''A'', JInt 3)]), (''stackSize'', JInt 0)])
     [(KStr ''A'', JDict [(''id'', JStr ''A''), (''stackSize'', JInt (- 2))])] = Inr (Some 2) \<and>
   calculate_savings
     (JDict [(''id'', JStr ''B''), (''recipe'', JDict [(''A'', JInt 3)]), (''stackSize'', JInt 1)])
     [(KStr ''A'', JDict [(''id'', JStr ''A''), (''stackSize'', JInt (- 2))])] = Inr (Some 2) \<and>
   calculate_savings
     (JDict [(''id'', JStr ''B''), (''recipe'', JDict [(''A'', JInt 3)]), (''stackSize'', JInt 0)])
     [(KStr ''A'', JDict [(''id'', JStr ''A''), (''stackSize'', JInt 1)])] = Inr (Some 2)"
proof -
  let ?b = "[(''id'', JStr ''B''), (''recipe'', JDict [(''A'', JInt 3)]), (''stackSize'', JInt 0)]"
  let ?a = "[(''id'', JStr ''A''), (''stackSize'', JInt (- 2))]"
  have v: "calculate_savings (JDict ?b) [(KStr ''A'', JDict ?a)] = Inr (Some 2)"
    by (simp add: calculate_savings_def target_space_def py_le_zero_def py_truediv_def)
  have 1: "map_of ?b ''stackSize'' = Some (JInt 0)" "num_of (JInt 0) = Some 0" "(0::rat) \<le> 0"
    by simp_all
  have 2: "map_of ?a ''stackSize'' = Some (JInt (- 2))" "num_of (JInt (- 2)) = Some (- 2)" "(- 2::rat) \<le> 0"
    by simp_all
  show ?thesis
    using v degenerate_stack_size_is_one [OF 1, of "[(KStr ''A'', JDict ?a)]"]
      degenerate_stack_size_is_one [OF 2, of "[(KStr ''A'', JDict ?a)]" "KStr ''A''" "JDict ?b"]
    by simp
qed

section \<open>Which records a run writes\<close>

lemma calculate_savings_Some_dict:
  "calculate_savings data cat = Inr (Some v) \<Longrightarrow> \<exists>kvs. data = JDict kvs"
  by (cases data) (auto simp: calculate_savings_def split: sum.splits bool.splits if_splits)

lemma process_record_cases:
  assumes "process_record cat data = Inr (rec', b)"
  shows "(rec' = data \<and> \<not> b) \<or>
         (\<exists>kvs v. data = JDict kvs \<and> calculate_savings data cat = Inr (Some v) \<and>
            rec' = JDict (AList.update ''stashSavings'' (JFloat v) kvs) \<and> b)"
proof (cases "calculate_savings data cat")
  case (Inl e)
  with assms show ?thesis
    by (auto simp: process_record_def split: sum.splits bool.splits)
next
  case (Inr r)
  show ?thesis
  proof (cases r)
    case None
    with Inr assms show ?thesis
      by (auto simp: process_record_def split: sum.splits bool.splits)
  next
    case (Some v)
    with Inr obtain kvs where "data = JDict kvs"
      using calculate_savings_Some_dict by blast
    with Some Inr assms show ?thesis
      by (auto simp: process_record_def split: sum.splits bool.splits)
  qed
qed

lemma publish_loop_written:
  assumes "publish_loop cat files d p c = (r, d', evs)" and "d' n = Some rec'"
  shows "d n = Some rec' \<or> (\<exists>data b. (n, Parsed data) \<in> set files \<and> process_record cat data = Inr (rec', b))"
  using assms
proof (induction files arbitrary: d p c r d' evs)
  case Nil
  then show ?case by simp
next
  case (Cons f files)
  obtain name content where f: "f = (name, content)" by (cases f)
  show ?case
  proof (cases content)
    case (Parsed data)
    show ?thesis
    proof (cases "process_record cat data")
      case (Inl e)
      with Cons.prems f Parsed show ?thesis by simp
    next
      case (Inr res)
      obtain data' counted where res: "res = (data', counted)" by (cases res)
      obtain r1 d1 e1 where rest: "publish_loop cat files (d(name \<mapsto> data')) (p + 1)
          (if counted then c + 1 else c) = (r1, d1, e1)"
        by (cases "publish_loop cat files (d(name \<mapsto> data')) (p + 1) (if counted then c + 1 else c)")
      with Cons.prems f Parsed Inr res have "d1 = d'" by simp
      with Cons.IH [OF rest] Cons.prems(2)
      have "(d(name \<mapsto> data')) n = Some rec' \<or>
            (\<exists>data b. (n, Parsed data) \<in> set files \<and> process_record cat data = Inr (rec', b))"
        by simp
      then show ?thesis
        using f Parsed Inr res by (auto split: if_splits)
    qed
  next
    case JSONDecodeError
    obtain r1 d1 e1 where rest: "publish_loop cat files d p c = (r1, d1, e1)"
      by (cases "publish_loop cat files d p c")
    with Cons.prems f JSONDecodeError have "d1 = d'" by simp
    with Cons.IH [OF rest] Cons.prems(2) show ?thesis by auto
  next
    case Unreadable
    obtain r1 d1 e1 where rest: "publish_loop cat files d p c = (r1, d1, e1)"
      by (cases "publish_loop cat files d p c")
    with Cons.prems f Unreadable have "d1 = d'" by simp
    with Cons.IH [OF rest] Cons.prems(2) show ?thesis by auto
  qed
qed

lemma glob_Some: "glob (Some files) = filter (\<lambda>(name, content). glob_json name) files"
  by (simp add: glob_def)

lemma main_written:
  assumes "dest_after (main w) n = Some rec'"
  shows "\<exists>files cat evs data b. source w = Some files \<and> load_items (source w) = (Inr cat, evs) \<and>
           cat \<noteq> [] \<and> (n, Parsed data) \<in> set files \<and> glob_json n \<and>
           process_record cat data = Inr (rec', b)"
proof -
  obtain lr evs where l: "load_items (source w) = (lr, evs)"
    by (cases "load_items (source w)")
  show ?thesis
  proof (cases lr)
    case (Inl e)
    with l assms show ?thesis by (simp add: main_def)
  next
    case (Inr cat)
    show ?thesis
    proof (cases "cat = []")
      case True
      with l Inr assms show ?thesis by (simp add: main_def)
    next
      case False
      obtain r d pevs where pl: "publish_loop cat (glob (source w)) Map.empty 0 0 = (r, d, pevs)"
        by (cases "publish_loop cat (glob (source w)) Map.empty 0 0")
      with l Inr False assms have dn: "d n = Some rec'"
        by (cases r) (auto simp: main_def split: prod.splits)
      from publish_loop_written [OF pl dn] obtain data b where
        m: "(n, Parsed data) \<in> set (glob (source w))" and pr: "process_record cat data = Inr (rec', b)"
        by auto
      from m obtain files where s: "source w = Some files"
        by (cases "source w") (auto simp: glob_def)
      with m have "(n, Parsed data) \<in> set files" "glob_json n"
        by (auto simp: glob_Some)
      with s l Inr False pr show ?thesis by auto
    qed
  qed
qed

lemma distinct_names_unique:
  assumes "distinct (map fst files)" "(n, a) \<in> set files" "(n, b) \<in> set files"
  shows "a = b"
  using assms by (meson eq_key_imp_eq_value)

lemmas run_defs =
  main_def load_items_def glob_def glob_json_def reset_events_def process_record_def
  calculate_savings_def target_space_def py_le_zero_def py_truediv_def

section \<open>Records published by main\<close>

lemma process_record_frame:
  assumes "process_record cat data = Inr (rec', b)" and "k \<noteq> ''stashSavings''"
  shows "field_of rec' k = field_of data k"
  using process_record_cases [OF assms(1)] assms(2)
  by (auto simp: field_of_def update_conv')

text \<open>
  Claim C5. Every record that a run writes to the destination directory is the source
  record of the same file name with at most the field \<open>stashSavings\<close> set: every other
  field is there with the value it has in the source record.
\<close>

theorem published_record_frame:
  assumes "source w = Some files" and "distinct (map fst files)"
    and "(n, Parsed data) \<in> set files" and "dest_after (main w) n = Some rec'"
  shows "(\<forall>k. k \<noteq> ''stashSavings'' \<longrightarrow> field_of rec' k = field_of data k) \<and>
         (rec' = data \<or>
          (\<exists>kvs v. data = JDict kvs \<and> rec' = JDict (AList.update ''stashSavings'' (JFloat v) kvs)))"
proof -
  from main_written [OF assms(4)] obtain files' cat data' b where
    "source w = Some files'" "(n, Parsed data') \<in> set files'"
    and pr: "process_record cat data' = Inr (rec', b)"
    by blast
  with assms(1,2,3) have "Parsed data' = Parsed data"
    using distinct_names_unique by fastforce
  with pr have pr': "process_record cat data = Inr (rec', b)" by simp
  show ?thesis
    using process_record_frame [OF pr'] process_record_cases [OF pr'] by blast
qed

theorem published_record_frame_witness:
  "dest_after (main \<lparr>source = Some
       [(''a.json'', Parsed (JDict [(''id'', JStr ''A''), (''stackSize'', JInt 8)])),
        (''b.json'', Parsed (JDict [(''id'', JStr ''B''), (''name'', JStr ''Bandage''),
            (''recipe'', JDict [(''A'', JInt 4)])]))],
      dest = None\<rparr>) ''b.json'' =
     Some (JDict [(''id'', JStr ''B''), (''name'', JStr ''Bandage''),
            (''recipe'', JDict [(''A'', JInt 4)]), (''stashSavings'', JFloat (- 1 / 2))]) \<and>
   field_of (JDict [(''id'', JStr ''B''), (''name'', JStr ''Bandage''),
            (''recipe'', JDict [(''A'', JInt 4)]), (''stashSavings'', JFloat (- 1 / 2))]) ''name'' =
     field_of (JDict [(''id'', JStr ''B''), (''name'', JStr ''Bandage''),
            (''recipe'', JDict [(''A'', JInt 4)])]) ''name''"
proof -
  let ?a = "JDict [(''id'', JStr ''A''), (''stackSize'', JInt 8)]"
  let ?b = "JDict [(''id'', JStr ''B''), (''name'', JStr ''Bandage''), (''recipe'', JDict [(''A'', JInt 4)])]"
  let ?b' = "JDict [(''id'', JStr ''B''), (''name'', JStr ''Bandage''),
            (''recipe'', JDict [(''A'', JInt 4)]), (''stashSavings'', JFloat (- 1 / 2))]"
  let ?files = "[(''a.json'', Parsed ?a), (''b.json'', Parsed ?b)]"
  let ?w = "\<lparr>source = Some ?files, dest = None\<rparr>"
  have d: "dest_after (main ?w) ''b.json'' = Some ?b'"
    by (simp add: run_defs)
  have "source ?w = Some ?files" "distinct (map fst ?files)" "(''b.json'', Parsed ?b) \<in> set ?files"
    by simp_all
  from published_record_frame [OF this d] d show ?thesis
    by simp
qed

text \<open>
  Claim C3, as the code has it. A record whose recipe is absent or empty is written to
  the destination exactly as it was read: the run sets no \<open>stashSavings\<close> field on it and
  removes none, so the written record has the field when and only when the source record
  had it, with the same value.
\<close>

theorem no_recipe_published_unchanged:
  assumes "source w = Some files" and "distinct (map fst files)"
    and "(n, Parsed (JDict flds)) \<in> set files" and "dest_after (main w) n = Some rec'"
    and "map_of flds ''recipe'' = None \<or> (\<exists>r. map_of flds ''recipe'' = Some r \<and> \<not> truthy r)"
  shows "rec' = JDict flds \<and> field_of rec' ''stashSavings'' = map_of flds ''stashSavings''"
proof -
  from main_written [OF assms(4)] obtain files' cat data' b where
    "source w = Some files'" "(n, Parsed data') \<in> set files'"
    and pr: "process_record cat data' = Inr (rec', b)"
    by blast
  with assms(1,2,3) have "Parsed data' = Parsed (JDict flds)"
    using distinct_names_unique by fastforce
  with pr have pr': "process_record cat (JDict flds) = Inr (rec', b)" by simp
  from assms(5) have "calculate_savings (JDict flds) cat = Inr None"
    by (auto simp: calculate_savings_def)
  with process_record_cases [OF pr'] have "rec' = JDict flds" by auto
  then show ?thesis by (simp add: field_of_def)
qed

theorem no_recipe_published_unchanged_witness:
  "dest_after (main \<lparr>source = Some
       [(''a.json'', Parsed (JDict [(''id'', JStr ''A''), (''recipe'', JDict [])]))],
      dest = Some [''a.json'' \<mapsto> JDict [(''id'', JStr ''A''), (''stashSavings'', JFloat 3)]]\<rparr>) ''a.json'' =
     Some (JDict [(''id'', JStr ''A''), (''recipe'', JDict [])]) \<and>
   field_of (JDict [(''id'', JStr ''A''), (''recipe'', JDict [])]) ''stashSavings'' = None"
proof -
  let ?a = "[(''id'', JStr ''A''), (''recipe'', JDict [])]"
  let ?files = "[(''a.json'', Parsed (JDict ?a))]"
  let ?w = "\<lparr>source = Some ?files,
      dest = Some [''a.json'' \<mapsto> JDict [(''id'', JStr ''A''), (''stashSavings'', JFloat 3)]]\<rparr>"
  have d: "dest_after (main ?w) ''a.json'' = Some (JDict ?a)"
    by (simp add: run_defs)
  have "source ?w = Some ?files" "distinct (map fst ?files)" "(''a.json'', Parsed (JDict ?a)) \<in> set ?files"
    by simp_all
  from no_recipe_published_unchanged [OF this d] d show ?thesis
    by simp
qed

theorem stale_source_field_counterexample:
  "map_of [(''id'', JStr ''A''), (''stashSavings'', JFloat 2)] ''recipe'' = None \<and>
   dest_after (main \<lparr>source = Some
       [(''a.json'', Parsed (JDict [(''id'', JStr ''A''), (''stashSavings'', JFloat 2)]))],
      dest = None\<rparr>) ''a.json'' = Some (JDict [(''id'', JStr ''A''), (''stashSavings'', JFloat 2)]) \<and>
   field_of (JDict [(''id'', JStr ''A''), (''stashSavings'', JFloat 2)]) ''stashSavings'' = Some (JFloat 2)"
  by (simp add: run_defs field_of_def)

section \<open>Missing ingredients\<close>





section \<open>The steps of a run\<close>

lemma load_loop_events:
  assumes "load_loop files items = (r, evs)"
  shows "set evs \<subseteq> range Print \<union> Open_read ` fst ` set files"
  using assms
proof (induction files arbitrary: items r evs)
  case Nil
  then show ?case by simp
next
  case (Cons f files)
  obtain name content where f: "f = (name, content)" by (cases f)
  have step: "set evs \<subseteq> range Print \<union> Open_read ` fst ` set (f # files)"
    if "load_loop files items' = (r', evs')" "set evs \<subseteq> insert (Open_read name) (range Print \<union> set evs')"
    for items' r' evs'
    using Cons.IH [OF that(1)] that(2) f by auto
  show ?case
  proof (cases content)
    case Unreadable
    with Cons.prems f show ?thesis by auto
  next
    case JSONDecodeError
    obtain r' evs' where l: "load_loop files items = (r', evs')" by (cases "load_loop files items")
    with Cons.prems f JSONDecodeError show ?thesis by (intro step [OF l]) auto
  next
    case (Parsed data)
    show ?thesis
    proof (cases "py_contains ''id'' data")
      case (Inl e)
      with Cons.prems f Parsed show ?thesis by auto
    next
      case (Inr has)
      show ?thesis
      proof (cases has)
        case False
        obtain r' evs' where l: "load_loop files items = (r', evs')" by (cases "load_loop files items")
        with Cons.prems f Parsed Inr False show ?thesis by (intro step [OF l]) auto
      next
        case True
        show ?thesis
        proof (cases "py_getitem data ''id''")
          case (Inl e)
          with Cons.prems f Parsed Inr True show ?thesis by auto
        next
          case v: (Inr v)
          show ?thesis
          proof (cases "hash_key v")
            case (Inl e)
            with Cons.prems f Parsed Inr True v show ?thesis by auto
          next
            case k: (Inr k)
            obtain r' evs' where l: "load_loop files (AList.update k data items) = (r', evs')"
              by (cases "load_loop files (AList.update k data items)")
            with Cons.prems f Parsed Inr True v k show ?thesis by (intro step [OF l]) auto
          qed
        qed
      qed
    qed
  qed
qed

lemma load_items_events:
  assumes "load_items src = (r, evs)"
  shows "\<exists>rest. evs = Exists_source # rest \<and>
           set rest \<subseteq> insert Glob_source (range Print \<union> Open_read ` fst ` set (glob src))"
proof (cases src)
  case None
  with assms show ?thesis by (auto simp: load_items_def)
next
  case (Some listing)
  obtain r' evs' where l: "load_loop (glob src) [] = (r', evs')" by (cases "load_loop (glob src) []")
  from load_loop_events [OF l] assms Some l show ?thesis
    by (auto simp: load_items_def)
qed

lemma publish_loop_events:
  assumes "publish_loop cat files d p c = (r, d', evs)"
  shows "set evs \<subseteq> range Print \<union> Open_read ` fst ` set files \<union> Open_write ` fst ` set files"
  using assms
proof (induction files arbitrary: d p c r d' evs)
  case Nil
  then show ?case by simp
next
  case (Cons f files)
  obtain name content where f: "f = (name, content)" by (cases f)
  have step: "set evs \<subseteq> range Print \<union> Open_read ` fst ` set (f # files) \<union> Open_write ` fst ` set (f # files)"
    if "publish_loop cat files d1 p1 c1 = (r1, d1', evs1)"
      "set evs \<subseteq> insert (Open_read name) (insert (Open_write name) (range Print \<union> set evs1))"
    for d1 p1 c1 r1 d1' evs1
    using Cons.IH [OF that(1)] that(2) f by auto
  show ?case
  proof (cases content)
    case (Parsed data)
    show ?thesis
    proof (cases "process_record cat data")
      case (Inl e)
      with Cons.prems f Parsed show ?thesis by auto
    next
      case (Inr res)
      obtain data' counted where res: "res = (data', counted)" by (cases res)
      obtain r1 d1 e1 where rest: "publish_loop cat files (d(name \<mapsto> data')) (p + 1)
          (if counted then c + 1 else c) = (r1, d1, e1)"
        by (cases "publish_loop cat files (d(name \<mapsto> data')) (p + 1) (if counted then c + 1 else c)")
      with Cons.prems f Parsed Inr res show ?thesis by (intro step [OF rest]) auto
    qed
  next
    case JSONDecodeError
    obtain r1 d1 e1 where rest: "publish_loop cat files d p c = (r1, d1, e1)"
      by (cases "publish_loop cat files d p c")
    with Cons.prems f JSONDecodeError show ?thesis by (intro step [OF rest]) auto
  next
    case Unreadable
    obtain r1 d1 e1 where rest: "publish_loop cat files d p c = (r1, d1, e1)"
      by (cases "publish_loop cat files d p c")
    with Cons.prems f Unreadable show ?thesis by (intro step [OF rest]) auto
  qed
qed

text \<open>The steps of a run after the reset of the destination.\<close>

lemma main_trace:
  "\<exists>rest. trace (main w) = reset_events (dest w) @ Print Loading_items # Exists_source # rest \<and>
     set rest \<subseteq> insert Glob_source
       (range Print \<union> Open_read ` fst ` set (glob (source w)) \<union> Open_write ` fst ` set (glob (source w)))"
proof -
  obtain lr evs where l: "load_items (source w) = (lr, evs)"
    by (cases "load_items (source w)")
  from load_items_events [OF l] obtain lrest where
    evs: "evs = Exists_source # lrest"
    and lrest: "set lrest \<subseteq> insert Glob_source (range Print \<union> Open_read ` fst ` set (glob (source w)))"
    by blast
  show ?thesis
  proof (cases lr)
    case (Inl e)
    with l evs lrest show ?thesis by (auto simp: main_def)
  next
    case (Inr cat)
    show ?thesis
    proof (cases "cat = []")
      case True
      with l Inr evs lrest show ?thesis by (auto simp: main_def)
    next
      case False
      obtain r d pevs where pl: "publish_loop cat (glob (source w)) Map.empty 0 0 = (r, d, pevs)"
        by (cases "publish_loop cat (glob (source w)) Map.empty 0 0")
      from publish_loop_events [OF pl] l Inr False evs lrest pl show ?thesis
        by (cases r) (auto simp: main_def)
    qed
  qed
qed

section \<open>A missing source directory, and the order of the reset\<close>

lemma main_empty_catalog:
  assumes "load_items (source w) = (Inr [], evs)"
  shows "main w = \<lparr>raised = None, dest_after = Map.empty,
           trace = reset_events (dest w) @ Print Loading_items # evs @
             [Print (Loaded 0), Print No_items_found]\<rparr>"
  using assms by (simp add: main_def)

text \<open>
  Claim C6. When the source directory does not exist, \<open>load_items\<close> prints the error and
  returns the empty catalog, and the run ends without an exception after printing that
  no items were found: the destination holds no file. In general a run whose catalog is
  empty ends there, before the loop over the files.
\<close>

theorem missing_source_halts:
  assumes "source w = None"
  shows "load_items (source w) = (Inr [], [Exists_source, Print Error_source_missing]) \<and>
         raised (main w) = None \<and> dest_after (main w) = Map.empty \<and>
         trace (main w) = reset_events (dest w) @
           [Print Loading_items, Exists_source, Print Error_source_missing,
            Print (Loaded 0), Print No_items_found] \<and>
         (\<forall>w' evs. load_items (source w') = (Inr [], evs) \<longrightarrow>
            raised (main w') = None \<and> dest_after (main w') = Map.empty \<and>
            trace (main w') = reset_events (dest w') @ Print Loading_items # evs @
              [Print (Loaded 0), Print No_items_found])"
proof -
  have l: "load_items (source w) = (Inr [], [Exists_source, Print Error_source_missing])"
    using assms by (simp add: load_items_def)
  show ?thesis
    using l main_empty_catalog [OF l] main_empty_catalog by simp
qed

theorem missing_source_halts_witness:
  "dest_after (main \<lparr>source = None, dest = Some [''old.json'' \<mapsto> JNull]\<rparr>) = Map.empty \<and>
   raised (main \<lparr>source = None, dest = Some [''old.json'' \<mapsto> JNull]\<rparr>) = None \<and>
   trace (main \<lparr>source = None, dest = Some [''old.json'' \<mapsto> JNull]\<rparr>) =
     [Exists_dest, Print Clearing_destination, Rmtree_dest, Makedirs_dest, Print Loading_items,
      Exists_source, Print Error_source_missing, Print (Loaded 0), Print No_items_found]"
  using missing_source_halts [of "\<lparr>source = None, dest = Some [''old.json'' \<mapsto> JNull]\<rparr>"]
  by (simp add: reset_events_def)

text \<open>
  Claim C7. In every run the destination is reset first: the steps of the run begin with
  the check of the destination, its removal when it exists, and its creation; only then
  comes the first look at the source directory. None of the reset steps touches the
  source, and no later step removes or creates the destination. A run whose source
  directory is missing therefore leaves the destination empty, whatever it held.
\<close>

theorem reset_before_source:
  "\<exists>rest. trace (main w) = reset_events (dest w) @ Print Loading_items # Exists_source # rest \<and>
     Makedirs_dest \<in> set (reset_events (dest w)) \<and>
     (dest w \<noteq> None \<longrightarrow> Rmtree_dest \<in> set (reset_events (dest w))) \<and>
     \<not> list_ex touches_source (reset_events (dest w)) \<and>
     \<not> list_ex resets_dest (Print Loading_items # Exists_source # rest) \<and>
     (source w = None \<longrightarrow> dest_after (main w) = Map.empty)"
proof -
  from main_trace [of w] obtain rest where
    t: "trace (main w) = reset_events (dest w) @ Print Loading_items # Exists_source # rest"
    and r: "set rest \<subseteq> insert Glob_source
       (range Print \<union> Open_read ` fst ` set (glob (source w)) \<union> Open_write ` fst ` set (glob (source w)))"
    by blast
  have "\<not> resets_dest e" if "e \<in> set rest" for e
    using r that by auto
  then have later: "\<not> list_ex resets_dest (Print Loading_items # Exists_source # rest)"
    by (simp add: list_ex_iff)
  have missing: "dest_after (main w) = Map.empty" if "source w = None"
    using that by (simp add: main_def load_items_def)
  show ?thesis
    using t later missing by (auto simp: reset_events_def)
qed

theorem reset_before_source_witness:
  "trace (main \<lparr>source = None, dest = Some [''stale.json'' \<mapsto> JInt 7]\<rparr>) =
     [Exists_dest, Print Clearing_destination, Rmtree_dest, Makedirs_dest] @
     Print Loading_items # Exists_source #
     [Print Error_source_missing, Print (Loaded 0), Print No_items_found] \<and>
   dest_after (main \<lparr>source = None, dest = Some [''stale.json'' \<mapsto> JInt 7]\<rparr>) ''stale.json'' = None"
  using reset_before_source [of "\<lparr>source = None, dest = Some [''stale.json'' \<mapsto> JInt 7]\<rparr>"]
  by (simp add: run_defs)

section \<open>Only the files that the glob pattern matches\<close>

lemma glob_filter: "glob (Some (filter (\<lambda>(name, content). glob_json name) files)) = glob (Some files)"
  by (simp add: glob_def)

lemma load_items_filter:
  "load_items (Some (filter (\<lambda>(name, content). glob_json name) files)) = load_items (Some files)"
  by (simp add: load_items_def glob_filter)

lemma update_entry:
  "(a, b) \<in> set (AList.update k v al) \<Longrightarrow> (a, b) = (k, v) \<or> (a, b) \<in> set al"
  by (induction al) (auto split: if_splits)

lemma load_loop_entries:
  assumes "load_loop files items = (Inr cat, evs)" and "(k, data) \<in> set cat"
  shows "(k, data) \<in> set items \<or> (\<exists>n. (n, Parsed data) \<in> set files)"
  using assms
proof (induction files arbitrary: items evs)
  case Nil
  then show ?case by simp
next
  case (Cons f files)
  obtain name content where f: "f = (name, content)" by (cases f)
  show ?case
  proof (cases content)
    case Unreadable
    with Cons.prems f show ?thesis by simp
  next
    case JSONDecodeError
    obtain r' evs' where l: "load_loop files items = (r', evs')" by (cases "load_loop files items")
    with Cons.prems f JSONDecodeError have "r' = Inr cat" by simp
    with Cons.IH [OF _ Cons.prems(2)] l show ?thesis by auto
  next
    case (Parsed d)
    show ?thesis
    proof (cases "py_contains ''id'' d")
      case (Inl e)
      with Cons.prems f Parsed show ?thesis by simp
    next
      case (Inr has)
      show ?thesis
      proof (cases has)
        case False
        obtain r' evs' where l: "load_loop files items = (r', evs')" by (cases "load_loop files items")
        with Cons.prems f Parsed Inr False have "r' = Inr cat" by simp
        with Cons.IH [OF _ Cons.prems(2)] l show ?thesis by auto
      next
        case True
        show ?thesis
        proof (cases "py_getitem d ''id''")
          case (Inl e)
          with Cons.prems f Parsed Inr True show ?thesis by simp
        next
          case v: (Inr v)
          show ?thesis
          proof (cases "hash_key v")
            case (Inl e)
            with Cons.prems f Parsed Inr True v show ?thesis by simp
          next
            case k: (Inr k')
            obtain r' evs' where l': "load_loop files (AList.update k' d items) = (r', evs')"
              by (cases "load_loop files (AList.update k' d items)")
            with Cons.prems f Parsed Inr True v k
            have l: "load_loop files (AList.update k' d items) = (Inr cat, evs')" by simp
            from Cons.IH [OF l Cons.prems(2)] show ?thesis
              using update_entry [of k data k' d items] f Parsed by auto
          qed
        qed
      qed
    qed
  qed
qed

lemma main_cong:
  assumes "load_items (source w1) = load_items (source w2)" and "glob (source w1) = glob (source w2)"
    and "dest w1 = dest w2"
  shows "main w1 = main w2"
  unfolding main_def assms ..

text \<open>
  Claim C10. Both scans consider only the entries of the source directory whose names the
  pattern \<^verbatim>\<open>*.json\<close> matches. The catalog and the whole run are what they would be if
  the other entries were not there; every record of the catalog comes from a matching
  file; and every file that the run opens for reading or writing, and every file in the
  destination afterwards, has a matching name found in the source directory.
\<close>

theorem only_json_files:
  "load_items (Some files) = load_items (Some (filter (\<lambda>(name, content). glob_json name) files)) \<and>
   main \<lparr>source = Some files, dest = d\<rparr> =
     main \<lparr>source = Some (filter (\<lambda>(name, content). glob_json name) files), dest = d\<rparr> \<and>
   (\<forall>cat evs k data. load_items (Some files) = (Inr cat, evs) \<and> (k, data) \<in> set cat \<longrightarrow>
      (\<exists>n. glob_json n \<and> (n, Parsed data) \<in> set files)) \<and>
   (\<forall>n. Open_read n \<in> set (trace (main \<lparr>source = Some files, dest = d\<rparr>)) \<or>
        Open_write n \<in> set (trace (main \<lparr>source = Some files, dest = d\<rparr>)) \<or>
        dest_after (main \<lparr>source = Some files, dest = d\<rparr>) n \<noteq> None \<longrightarrow>
        glob_json n \<and> n \<in> fst ` set files)"
proof -
  let ?w = "\<lparr>source = Some files, dest = d\<rparr>"
  have same: "main ?w = main \<lparr>source = Some (filter (\<lambda>(name, content). glob_json name) files), dest = d\<rparr>"
    by (rule main_cong) (simp_all add: load_items_filter glob_filter)
  have entries: "\<exists>n. glob_json n \<and> (n, Parsed data) \<in> set files"
    if "load_items (Some files) = (Inr cat, evs)" "(k, data) \<in> set cat" for cat evs k data
  proof -
    obtain r' evs' where l: "load_loop (glob (Some files)) [] = (r', evs')"
      by (cases "load_loop (glob (Some files)) []")
    with that(1) have "r' = Inr cat" by (simp add: load_items_def)
    with load_loop_entries [OF _ that(2)] l
    obtain n where "(n, Parsed data) \<in> set (glob (Some files))" by fastforce
    then show ?thesis by (auto simp: glob_def)
  qed
  have names: "fst ` set (glob (source ?w)) \<subseteq> {n. glob_json n \<and> n \<in> fst ` set files}"
    by (auto simp: glob_def)
  have written: "glob_json n \<and> n \<in> fst ` set files" if "dest_after (main ?w) n \<noteq> None" for n
  proof -
    from that obtain rec' where "dest_after (main ?w) n = Some rec'" by auto
    from main_written [OF this] show ?thesis by force
  qed
  from main_trace [of ?w] obtain rest where
    t: "trace (main ?w) = reset_events (dest ?w) @ Print Loading_items # Exists_source # rest"
    and r: "set rest \<subseteq> insert Glob_source
       (range Print \<union> Open_read ` fst ` set (glob (source ?w)) \<union> Open_write ` fst ` set (glob (source ?w)))"
    by blast
  have opened: "glob_json n \<and> n \<in> fst ` set files"
    if "Open_read n \<in> set (trace (main ?w)) \<or> Open_write n \<in> set (trace (main ?w))" for n
  proof -
    from that t have "Open_read n \<in> set rest \<or> Open_write n \<in> set rest"
      by (auto simp: reset_events_def split: if_splits)
    with r have "n \<in> fst ` set (glob (source ?w))" by auto
    with names show ?thesis by blast
  qed
  have all_names: "\<forall>n. Open_read n \<in> set (trace (main ?w)) \<or> Open_write n \<in> set (trace (main ?w)) \<or>
        dest_after (main ?w) n \<noteq> None \<longrightarrow> glob_json n \<and> n \<in> fst ` set files"
    using written opened by blast
  have all_entries: "\<forall>cat evs k data. load_items (Some files) = (Inr cat, evs) \<and> (k, data) \<in> set cat \<longrightarrow>
      (\<exists>n. glob_json n \<and> (n, Parsed data) \<in> set files)"
    using entries by blast
  show ?thesis
    using load_items_filter [of files, symmetric] same all_entries all_names
    by (intro conjI)
qed

theorem only_json_files_witness:
  "dest_after (main \<lparr>source = Some
       [(''a.json'', Parsed (JDict [(''id'', JStr ''A'')])),
        (''notes.txt'', Parsed (JDict [(''id'', JStr ''N'')])),
        (''.hidden.json'', Unreadable)], dest = None\<rparr>) ''notes.txt'' = None \<and>
   fst (load_items (Some
       [(''a.json'', Parsed (JDict [(''id'', JStr ''A'')])),
        (''notes.txt'', Parsed (JDict [(''id'', JStr ''N'')])),
        (''.hidden.json'', Unreadable)])) = Inr [(KStr ''A'', JDict [(''id'', JStr ''A'')])] \<and>
   main \<lparr>source = Some
       [(''a.json'', Parsed (JDict [(''id'', JStr ''A'')])),
        (''notes.txt'', Parsed (JDict [(''id'', JStr ''N'')])),
        (''.hidden.json'', Unreadable)], dest = None\<rparr> =
   main \<lparr>source = Some [(''a.json'', Parsed (JDict [(''id'', JStr ''A'')]))], dest = None\<rparr>"
proof -
  let ?files = "[(''a.json'', Parsed (JDict [(''id'', JStr ''A'')])),
        (''notes.txt'', Parsed (JDict [(''id'', JStr ''N'')])),
        (''.hidden.json'', Unreadable)]"
  have f: "filter (\<lambda>(name, content). glob_json name) ?files = [(''a.json'', Parsed (JDict [(''id'', JStr ''A'')]))]"
    by (simp add: glob_json_def)
  have n: "\<not> glob_json ''notes.txt''" by (simp add: glob_json_def)
  have l: "fst (load_items (Some [(''a.json'', Parsed (JDict [(''id'', JStr ''A'')]))])) =
      Inr [(KStr ''A'', JDict [(''id'', JStr ''A'')])]"
    by (simp add: load_items_def glob_def glob_json_def)
  note t = only_json_files [of ?files None, unfolded f]
  have c1: "load_items (Some ?files) = load_items (Some [(''a.json'', Parsed (JDict [(''id'', JStr ''A'')]))])"
    by (rule t [THEN conjunct1])
  have c2: "main \<lparr>source = Some ?files, dest = None\<rparr> =
      main \<lparr>source = Some [(''a.json'', Parsed (JDict [(''id'', JStr ''A'')]))], dest = None\<rparr>"
    by (rule t [THEN conjunct2, THEN conjunct1])
  have c4: "dest_after (main \<lparr>source = Some ?files, dest = None\<rparr>) ''notes.txt'' \<noteq> None \<longrightarrow>
      glob_json ''notes.txt'' \<and> ''notes.txt'' \<in> fst ` set ?files"
    using t [THEN conjunct2, THEN conjunct2, THEN conjunct2, THEN spec, of "''notes.txt''"]
    by blast
  from c4 n have c5: "dest_after (main \<lparr>source = Some ?files, dest = None\<rparr>) ''notes.txt'' = None"
    by blast
  show ?thesis
    using c1 c2 c5 l by (simp only:) 
qed

section \<open>The catalog built by load\_items\<close>

lemma load_loop_catalog:
  assumes "load_loop files items = (Inr cat, evs)" and "distinct (map fst items)"
  shows "distinct (map fst cat) \<and> map_of cat = map_of items ++ map_of (rev (seen_ids files)) \<and>
         printed evs = file_diagnostics files"
  using assms
proof (induction files arbitrary: items evs)
  case Nil
  then show ?case by simp
next
  case (Cons f files)
  obtain name content where f: "f = (name, content)" by (cases f)
  show ?case
  proof (cases content)
    case Unreadable
    with Cons.prems f show ?thesis by simp
  next
    case JSONDecodeError
    obtain r' evs' where l: "load_loop files items = (r', evs')" by (cases "load_loop files items")
    with Cons.prems f JSONDecodeError have r: "r' = Inr cat"
      and e: "evs = Open_read name # Print (Error_decoding name) # evs'" by simp_all
    from Cons.IH [OF l [unfolded r] Cons.prems(2)] show ?thesis
      by (simp add: f JSONDecodeError e)
  next
    case (Parsed d)
    show ?thesis
    proof (cases "py_contains ''id'' d")
      case (Inl e)
      with Cons.prems f Parsed show ?thesis by simp
    next
      case (Inr has)
      show ?thesis
      proof (cases has)
        case False
        obtain r' evs' where l: "load_loop files items = (r', evs')" by (cases "load_loop files items")
        with Cons.prems f Parsed Inr False have r: "r' = Inr cat"
          and e: "evs = Open_read name # Print (Warning_no_id name) # evs'" by simp_all
        from Cons.IH [OF l [unfolded r] Cons.prems(2)] show ?thesis
          using Inr False by (simp add: f Parsed e record_key_def)
      next
        case True
        show ?thesis
        proof (cases "py_getitem d ''id''")
          case (Inl e)
          with Cons.prems f Parsed Inr True show ?thesis by simp
        next
          case v: (Inr v)
          show ?thesis
          proof (cases "hash_key v")
            case (Inl e)
            with Cons.prems f Parsed Inr True v show ?thesis by simp
          next
            case k: (Inr k)
            obtain r' evs' where l: "load_loop files (AList.update k d items) = (r', evs')"
              by (cases "load_loop files (AList.update k d items)")
            with Cons.prems f Parsed Inr True v k have r: "r' = Inr cat"
              and e: "evs = Open_read name # evs'" by simp_all
            have dist: "distinct (map fst (AList.update k d items))"
              using Cons.prems(2) by (rule distinct_update)
            have key: "record_key d = Some k"
              using Inr True v k by (simp add: record_key_def)
            have maps: "map_of (AList.update k d items) ++ map_of (rev (seen_ids files)) =
                map_of items ++ map_of (rev (seen_ids ((name, Parsed d) # files)))"
              by (simp add: key update_conv' map_add_upd_left)
            from Cons.IH [OF l [unfolded r] dist] show ?thesis
              using Inr True maps by (simp add: f Parsed e)
          qed
        qed
      qed
    qed
  qed
qed

text \<open>
  Claim C8. When \<open>load_items\<close> returns, the catalog has exactly one entry for each
  distinct id seen in the parsed records of the matched files (ids are distinct as
  Python compares dict keys), the entry of an id is the last record seen with it, and
  the number of entries is the number of distinct ids. The only lines printed are one for
  each file that does not decode and one for each record without an id: a repeated id
  prints nothing.
\<close>

theorem catalog_one_entry_per_id:
  assumes "load_items (Some files) = (Inr cat, evs)"
  shows "distinct (map fst cat) \<and>
         map_of cat = map_of (rev (seen_ids (glob (Some files)))) \<and>
         fst ` set cat = fst ` set (seen_ids (glob (Some files))) \<and>
         length cat = card (fst ` set (seen_ids (glob (Some files)))) \<and>
         printed evs = file_diagnostics (glob (Some files))"
proof -
  obtain r' evs' where l: "load_loop (glob (Some files)) [] = (r', evs')"
    by (cases "load_loop (glob (Some files)) []")
  with assms have r: "r' = Inr cat" and e: "evs = Exists_source # Glob_source # evs'"
    by (simp_all add: load_items_def)
  from load_loop_catalog [OF l [unfolded r]] have
    d: "distinct (map fst cat)"
    and m: "map_of cat = map_of (rev (seen_ids (glob (Some files))))"
    and p: "printed evs' = file_diagnostics (glob (Some files))"
    by simp_all
  have "fst ` set cat = dom (map_of cat)"
    by (simp add: dom_map_of_conv_image_fst)
  also have "\<dots> = fst ` set (rev (seen_ids (glob (Some files))))"
    by (simp only: m dom_map_of_conv_image_fst)
  finally have k: "fst ` set cat = fst ` set (seen_ids (glob (Some files)))"
    by simp
  have "length cat = card (set (map fst cat))"
    using distinct_card [OF d] by simp
  with k have n: "length cat = card (fst ` set (seen_ids (glob (Some files))))"
    by simp
  show ?thesis
    using d m k n p by (simp add: e)
qed

theorem catalog_one_entry_per_id_witness:
  "load_items (Some
     [(''a.json'', Parsed (JDict [(''id'', JStr ''X''), (''v'', JInt 1)])),
      (''b.json'', Parsed (JDict [(''id'', JStr ''Y'')])),
      (''c.json'', Parsed (JDict [(''id'', JStr ''X''), (''v'', JInt 2)]))]) =
     (Inr [(KStr ''X'', JDict [(''id'', JStr ''X''), (''v'', JInt 2)]),
           (KStr ''Y'', JDict [(''id'', JStr ''Y'')])],
      [Exists_source, Glob_source, Open_read ''a.json'', Open_read ''b.json'', Open_read ''c.json'']) \<and>
   length [(KStr ''X'', JDict [(''id'', JStr ''X''), (''v'', JInt 2)]),
           (KStr ''Y'', JDict [(''id'', JStr ''Y'')])] =
     card (fst ` set (seen_ids (glob (Some
     [(''a.json'', Parsed (JDict [(''id'', JStr ''X''), (''v'', JInt 1)])),
      (''b.json'', Parsed (JDict [(''id'', JStr ''Y'')])),
      (''c.json'', Parsed (JDict [(''id'', JStr ''X''), (''v'', JInt 2)]))]))))"
proof -
  let ?files = "[(''a.json'', Parsed (JDict [(''id'', JStr ''X''), (''v'', JInt 1)])),
      (''b.json'', Parsed (JDict [(''id'', JStr ''Y'')])),
      (''c.json'', Parsed (JDict [(''id'', JStr ''X''), (''v'', JInt 2)]))]"
  let ?cat = "[(KStr ''X'', JDict [(''id'', JStr ''X''), (''v'', JInt 2)]),
           (KStr ''Y'', JDict [(''id'', JStr ''Y'')])]"
  have l: "load_items (Some ?files) =
      (Inr ?cat, [Exists_source, Glob_source, Open_read ''a.json'', Open_read ''b.json'', Open_read ''c.json''])"
    by (simp add: load_items_def glob_def glob_json_def)
  from catalog_one_entry_per_id [OF l]
  have "length ?cat = card (fst ` set (seen_ids (glob (Some ?files))))"
    by (elim conjE)
  with l show ?thesis by (intro conjI)
qed

section \<open>Files that do not decode\<close>











end
